theory Spec2Isabelle
  imports Complex_Main
begin

section \<open>Arrays and errors\<close>

text \<open>
  The notebooks compute on NumPy arrays of floats. A one-dimensional array is a list; a
  two-dimensional array carries its shape beside its rows, because an array with no rows
  still has a column count in NumPy. Floating-point numbers are idealised as exact reals:
  every statement below is about shapes, about the values 0 and 1, or about exact algebra.
  Counts (\<open>len\<close>, \<open>run_trs\<close>, \<open>degree\<close>) are naturals.
  \<open>ValueError\<close> and \<open>IndexError\<close> are the Python exceptions the cells can raise;
  \<open>InvalidInput\<close> and \<open>ShapeMismatch\<close> are errors of the specification's taxonomy,
  raised only by the steps written from the specification.
\<close>

datatype error = ValueError | IndexError | InvalidInput | ShapeMismatch

record array2 =
  nrows :: nat
  ncols :: nat
  rows :: "real list list"

section \<open>Library calls of the cells\<close>

text \<open>
  \<open>np.column_stack\<close> on one-dimensional arrays: the arrays become the columns of a
  two-dimensional array. It raises \<open>ValueError\<close> on an empty list of arrays and
  on arrays of different lengths.
\<close>

definition column_stack :: "real list list \<Rightarrow> error + array2" where
  "column_stack cols =
     (case cols of
        [] \<Rightarrow> Inl ValueError
      | c # cs \<Rightarrow>
          if list_all (\<lambda>d. length d = length c) cs
          then Inr \<lparr>nrows = length c, ncols = length cols,
                    rows = map (\<lambda>i. map (\<lambda>col. col ! i) cols) [0..<length c]\<rparr>
          else Inl ValueError)"

text \<open>
  \<open>np.linspace(start, stop, num)\<close> with the end point included, as NumPy computes it:
  \<open>d = num - 1\<close>, the indices \<open>0 .. num - 1\<close> are scaled by \<open>delta / d\<close> when
  \<open>d > 0\<close> and by \<open>delta\<close> otherwise, \<open>start\<close> is added, and for \<open>num > 1\<close> the
  last entry is overwritten with \<open>stop\<close>. For \<open>num = 1\<close> the result is the one point
  \<open>start\<close>.
\<close>

definition linspace :: "real \<Rightarrow> real \<Rightarrow> nat \<Rightarrow> real list" where
  "linspace start stop num =
     (let d = num - 1;
          delta = stop - start;
          y = map real [0..<num];
          y = (if d > 0 then map (\<lambda>i. i * (delta / real d)) y
               else map (\<lambda>i. i * delta) y);
          y = map (\<lambda>v. v + start) y
      in if num > 1 then y[num - 1 := stop] else y)"

text \<open>
  \<open>scipy.special.eval_legendre(n, x)\<close>: the Legendre polynomial of degree \<open>n\<close> at
  \<open>x\<close>, by the three-term recurrence
  \<open>(n + 2) P (n + 2) = (2 n + 3) x P (n + 1) - (n + 1) P n\<close>.
\<close>

fun eval_legendre :: "nat \<Rightarrow> real \<Rightarrow> real" where
  "eval_legendre 0 x = 1"
| "eval_legendre (Suc 0) x = x"
| "eval_legendre (Suc (Suc n)) x =
     ((2 * real n + 3) * x * eval_legendre (Suc n) x - (real n + 1) * eval_legendre n x)
       / (real n + 2)"

section \<open>Homework 1, problem 2: polynomial detrending\<close>

text \<open>
  \<^verbatim>\<open>
  # Construct 4th-degree Legendre polynomials
  x_grid = np.linspace(-1, 1, n_trs)
  degree = 4

  polys = []
  for n in np.arange(degree):
      polys.append(eval_legendre(n, x_grid))
  polys = np.column_stack(polys)
  \<close>
  The cell fixes \<open>degree = 4\<close> and reads \<open>n_trs\<close>; both are parameters here.
  \<open>np.arange(degree)\<close> is \<open>0, 1, ..., degree - 1\<close>.
\<close>

definition polys :: "nat \<Rightarrow> nat \<Rightarrow> error + array2" where
  "polys n_trs degree =
     (let x_grid = linspace (- 1) 1 n_trs
      in column_stack (map (\<lambda>n. map (eval_legendre n) x_grid) [0..<degree]))"

section \<open>Homework 1, problem 3: boxcar regressors of the first run\<close>

text \<open>
  \<^verbatim>\<open>
  categories = ['face', 'cat', 'shoe', 'scissors',
                'bottle', 'chair', 'house', 'scrambledpix']
  run_trs = 121

  # Construct boxcar time series for the first run
  run_id = 0
  regressors = []
  for category in categories:
      regressor = np.zeros(run_trs)
      regressor[np.where(stimuli[runs == 0] == category)] = 1
      regressors.append(regressor)
  regressors = np.column_stack(regressors)
  \<close>
  \<open>stimuli\<close> is an array of label strings and \<open>runs\<close> an array of integers, read
  from the session file. \<open>run_id\<close> is assigned and never read.
\<close>

definition categories :: "string list" where
  "categories = [''face'', ''cat'', ''shoe'', ''scissors'',
                 ''bottle'', ''chair'', ''house'', ''scrambledpix'']"

text \<open>
  \<open>xs[mask]\<close> with a boolean array: the entries where the mask holds, in order;
  \<open>IndexError\<close> when the mask's length is not the array's.
\<close>

definition bool_index :: "'a list \<Rightarrow> bool list \<Rightarrow> error + 'a list" where
  "bool_index xs msk =
     (if length msk = length xs then Inr (map fst (filter snd (zip xs msk)))
      else Inl IndexError)"

text \<open>\<open>np.where(mask)\<close> on a one-dimensional boolean array: the indices that hold.\<close>

definition np_where :: "bool list \<Rightarrow> nat list" where
  "np_where msk = filter (\<lambda>i. msk ! i) [0..<length msk]"

text \<open>
  \<open>regressor[idx] = 1\<close> with an index array: \<open>IndexError\<close> when an index is out of
  bounds, otherwise each indexed entry becomes 1.
\<close>

definition assign_ones :: "real list \<Rightarrow> nat list \<Rightarrow> error + real list" where
  "assign_ones regressor idx =
     (if list_all (\<lambda>i. i < length regressor) idx
      then Inr (fold (\<lambda>i r. r[i := 1]) idx regressor)
      else Inl IndexError)"

text \<open>The body of the loop, for one category.\<close>

definition regressor :: "string list \<Rightarrow> int list \<Rightarrow> nat \<Rightarrow> string \<Rightarrow> error + real list" where
  "regressor stimuli runs run_trs category =
     (case bool_index stimuli (map (\<lambda>r. r = 0) runs) of
        Inl e \<Rightarrow> Inl e
      | Inr sel \<Rightarrow>
          assign_ones (replicate run_trs 0) (np_where (map (\<lambda>s. s = category) sel)))"

text \<open>The loop over the category list: the first exception ends it.\<close>

fun regressor_loop :: "string list \<Rightarrow> int list \<Rightarrow> nat \<Rightarrow> string list \<Rightarrow> error + real list list"
  where
  "regressor_loop stimuli runs run_trs [] = Inr []"
| "regressor_loop stimuli runs run_trs (category # cs) =
     (case regressor stimuli runs run_trs category of
        Inl e \<Rightarrow> Inl e
      | Inr r \<Rightarrow>
          (case regressor_loop stimuli runs run_trs cs of
             Inl e \<Rightarrow> Inl e
           | Inr rs \<Rightarrow> Inr (r # rs)))"

text \<open>The cell, with the category list and \<open>run_trs\<close> as parameters.\<close>

definition regressors ::
  "int \<Rightarrow> string list \<Rightarrow> int list \<Rightarrow> string list \<Rightarrow> nat \<Rightarrow> error + array2" where
  "regressors run_id stimuli runs cats run_trs =
     (case regressor_loop stimuli runs run_trs cats of
        Inl e \<Rightarrow> Inl e
      | Inr rs \<Rightarrow> column_stack rs)"

section \<open>Homework 2: rank percentiles\<close>

text \<open>
  \<^verbatim>\<open>
  def rank_percentile(a):
      return rankdata(a) / len(a) * 100
  \<close>
  \<open>rankdata\<close> is SciPy's, with its default method: the rank of an entry is the
  average of the positions its ties occupy in sorted order, counted from 1. With \<open>l\<close>
  entries smaller and \<open>e\<close> entries equal that is \<open>l + (e + 1) / 2\<close>. The input is a
  one-dimensional array. On the empty array both \<open>rankdata\<close> and the division return
  the empty array.
\<close>

definition rankdata :: "real list \<Rightarrow> real list" where
  "rankdata a =
     map (\<lambda>x. real (length (filter (\<lambda>y. y < x) a))
               + (real (length (filter (\<lambda>y. y = x) a)) + 1) / 2) a"

definition rank_percentile :: "real list \<Rightarrow> real list" where
  "rank_percentile a = map (\<lambda>r. r / real (length a) * 100) (rankdata a)"

section \<open>Cells the notebook leaves to the reader\<close>

text \<open>
  The cells of homework 1 that convolve the boxcars, stack the runs, append the
  detrending columns and apply contrast vectors hold a comment and no code. The
  definitions of this section are written from the specification of these steps.
\<close>

text \<open>
  Modelled from the spec: the convolution cell of problem 3 is empty. Section 4.3: the
  full linear (causal) convolution of a boxcar column with the HRF kernel. The kernel
  is a parameter: it comes from \<open>glover_hrf\<close> of an external library.
\<close>

definition full_convolution :: "real list \<Rightarrow> real list \<Rightarrow> real list" where
  "full_convolution b h =
     map (\<lambda>n. \<Sum>k\<leftarrow>[0..<length h]. if k \<le> n \<and> n - k < length b then h ! k * b ! (n - k) else 0)
         [0..<length b + length h - 1]"

text \<open>
  Modelled from the spec: the convolution cell of problem 3 is empty. Section 4.3: the
  full convolution, truncated to the length of the boxcar.
\<close>

definition convolve :: "real list \<Rightarrow> real list \<Rightarrow> real list" where
  "convolve b h = take (length b) (full_convolution b h)"





text \<open>
  Modelled from the spec: the contrast cell of problem 4 is empty. Section 4.5: the
  contrast map of a contrast vector \<open>c\<close> and the betas of the columns of interest (one
  row per column of interest, one column per voxel) is \<open>c\<^sup>T \<beta>\<close>, one scalar per voxel.
\<close>

definition contrast_map :: "real list \<Rightarrow> array2 \<Rightarrow> real list" where
  "contrast_map c beta =
     map (\<lambda>v. \<Sum>i\<leftarrow>[0..<nrows beta]. c ! i * rows beta ! i ! v) [0..<ncols beta]"

text \<open>
  Modelled from the spec: section 8 shifts every beta of the columns of interest by one
  constant \<open>K\<close>.
\<close>

definition shift_betas :: "real \<Rightarrow> array2 \<Rightarrow> array2" where
  "shift_betas K beta = beta\<lparr>rows := map (map (\<lambda>x. x + K)) (rows beta)\<rparr>"

text \<open>A two-dimensional array whose rows agree with its shape.\<close>

definition wf_array :: "array2 \<Rightarrow> bool" where
  "wf_array A = (length (rows A) = nrows A \<and> list_all (\<lambda>r. length r = ncols A) (rows A))"

section \<open>Rank percentiles: proofs\<close>

lemma count_eq_distinct:
  "distinct a \<Longrightarrow> x \<in> set a \<Longrightarrow> length (filter (\<lambda>y. y = x) a) = 1"
  by (induction a) (auto simp: filter_empty_conv)

lemma count_less_lt:
  "x \<in> set a \<Longrightarrow> length (filter (\<lambda>y. y < x) a) < length (a :: real list)"
  by (rule length_filter_less[where x = x]) auto

lemma count_less_mono:
  fixes a :: "real list"
  assumes "x \<in> set a" "x < z"
  shows "length (filter (\<lambda>y. y < x) a) < length (filter (\<lambda>y. y < z) a)"
proof -
  have "filter (\<lambda>y. y < x) (filter (\<lambda>y. y < z) a) = filter (\<lambda>y. y < x) a"
    using assms by (auto intro: filter_cong)
  moreover have "length (filter (\<lambda>y. y < x) (filter (\<lambda>y. y < z) a))
      < length (filter (\<lambda>y. y < z) a)"
    by (rule length_filter_less[where x = x]) (use assms in auto)
  ultimately show ?thesis by simp
qed

lemma count_less_Max:
  fixes a :: "real list"
  assumes "distinct a" "a \<noteq> []"
  shows "Suc (length (filter (\<lambda>y. y < Max (set a)) a)) = length a"
proof -
  let ?m = "Max (set a)"
  have m: "?m \<in> set a" using assms by simp
  have "filter (\<lambda>y. y < ?m) a = filter (\<lambda>y. y \<noteq> ?m) a"
    by (rule filter_cong) (auto simp: less_le)
  moreover have "length (filter (\<lambda>y. y = ?m) a) + length (filter (\<lambda>y. \<not> y = ?m) a) = length a"
    by (rule sum_length_filter_compl)
  ultimately show ?thesis using count_eq_distinct[OF assms(1) m] by simp
qed

text \<open>
  C10. For a nonempty array with pairwise distinct entries, \<open>rank_percentile\<close> returns
  an array of the same length, every value lies in the interval (0, 100], the maximum is
  exactly 100, and the order is strictly preserved: \<open>a[i] < a[j]\<close> gives
  \<open>rank_percentile(a)[i] < rank_percentile(a)[j]\<close>.
\<close>

theorem rank_percentile_distinct:
  assumes "a \<noteq> []" and "distinct a"
  shows "length (rank_percentile a) = length a
       \<and> (\<forall>v \<in> set (rank_percentile a). 0 < v \<and> v \<le> 100)
       \<and> Max (set (rank_percentile a)) = 100
       \<and> (\<forall>i < length a. \<forall>j < length a.
             a ! i < a ! j \<longrightarrow> rank_percentile a ! i < rank_percentile a ! j)"
proof -
  let ?n = "length a"
  have n: "0 < ?n" using assms(1) by simp
  have val: "rank_percentile a ! i
      = (real (length (filter (\<lambda>y. y < a ! i) a)) + 1) / real ?n * 100"
    if "i < ?n" for i
    using that count_eq_distinct[OF assms(2), of "a ! i"]
    by (simp add: rank_percentile_def rankdata_def)
  have len: "length (rank_percentile a) = ?n"
    by (simp add: rank_percentile_def rankdata_def)
  have range: "0 < v \<and> v \<le> 100" if "v \<in> set (rank_percentile a)" for v
  proof -
    from that len obtain i where i: "i < ?n" and v: "v = rank_percentile a ! i"
      by (metis in_set_conv_nth)
    have "length (filter (\<lambda>y. y < a ! i) a) < ?n"
      using i by (intro count_less_lt) simp
    then have "real (length (filter (\<lambda>y. y < a ! i) a)) + 1 \<le> real ?n" by linarith
    then show ?thesis using n by (simp add: v val[OF i] divide_le_eq)
  qed
  have top: "100 \<in> set (rank_percentile a)"
  proof -
    have "Max (set a) \<in> set a" using assms(1) by simp
    then obtain i where i: "i < ?n" and m: "a ! i = Max (set a)"
      by (metis in_set_conv_nth)
    have "real (length (filter (\<lambda>y. y < a ! i) a)) + 1 = real ?n"
      using count_less_Max[OF assms(2,1)] m by (metis of_nat_Suc add.commute)
    then have "rank_percentile a ! i = 100" using n by (simp add: val[OF i])
    then show ?thesis using i len by (metis nth_mem)
  qed
  have max: "Max (set (rank_percentile a)) = 100"
    by (rule Max_eqI) (use range top in auto)
  have mono: "rank_percentile a ! i < rank_percentile a ! j"
    if "i < ?n" "j < ?n" "a ! i < a ! j" for i j
  proof -
    have "length (filter (\<lambda>y. y < a ! i) a) < length (filter (\<lambda>y. y < a ! j) a)"
      using that by (intro count_less_mono) simp_all
    then show ?thesis using n that by (simp add: val divide_strict_right_mono)
  qed
  show ?thesis using len range max mono by blast
qed

theorem rank_percentile_distinct_witness:
  "[3, 1, 2] \<noteq> ([] :: real list) \<and> distinct [3, 1, 2 :: real]
   \<and> rank_percentile [3, 1, 2] = [100, 100 / 3, 200 / 3]
   \<and> Max (set (rank_percentile [3, 1, 2])) = 100"
  using rank_percentile_distinct[of "[3, 1, 2]"]
  by (simp add: rank_percentile_def rankdata_def)

section \<open>Polynomial detrending: proofs\<close>

lemma length_linspace: "length (linspace start stop num) = num"
  by (simp add: linspace_def Let_def)

lemma column_stack_shape:
  assumes "cols \<noteq> []" and "list_all (\<lambda>c. length c = n) cols"
  shows "column_stack cols =
     Inr \<lparr>nrows = n, ncols = length cols,
          rows = map (\<lambda>i. map (\<lambda>col. col ! i) cols) [0..<n]\<rparr>"
  using assms by (cases cols) (auto simp: column_stack_def list_all_iff)

lemma polys_value:
  assumes "0 < degree"
  shows "polys n_trs degree =
     Inr \<lparr>nrows = n_trs, ncols = degree,
          rows = map (\<lambda>i. map (\<lambda>n. eval_legendre n (linspace (- 1) 1 n_trs ! i)) [0..<degree])
                     [0..<n_trs]\<rparr>"
proof -
  let ?cols = "map (\<lambda>n. map (eval_legendre n) (linspace (- 1) 1 n_trs)) [0..<degree]"
  have ne: "?cols \<noteq> []" using assms by simp
  have all: "list_all (\<lambda>c. length c = n_trs) ?cols"
    by (simp add: list_all_iff length_linspace)
  show ?thesis
    unfolding polys_def Let_def column_stack_shape[OF ne all]
    by (simp add: length_linspace comp_def)
qed

text \<open>
  C1. For every timepoint count N and maximum degree D the detrender is to produce a
  matrix of shape N x (D + 1), one column per Legendre polynomial of degree 0 through D.
  The loop of the cell runs over \<open>np.arange(degree)\<close>, which stops at \<open>degree - 1\<close>: for
  three timepoints and the cell's \<open>degree = 4\<close> the result has the four columns of the
  degrees 0 to 3 on the grid -1, 0, 1, and no column of degree 4 (\<open>polys_value\<close> gives the
  shape N x D for every N and every D > 0).
\<close>

theorem polys_three_timepoints_degree_four:
  "polys 3 4 = Inr \<lparr>nrows = 3, ncols = 4, rows = [[1, - 1, 1, - 1], [1, 0, - 1 / 2, 0], [1, 1, 1, 1]]\<rparr>"
  by (simp add: polys_def linspace_def column_stack_def upt_rec eval_nat_numeral)

lemma eval_legendre_minus_one: "eval_legendre n (- 1) = (- 1) ^ n"
proof (induction n "- 1 :: real" rule: eval_legendre.induct)
  case 1 show ?case by simp
next
  case 2 show ?case by simp
next
  case (3 n)
  have "((2 * real n + 3) * (- 1) * (- 1) ^ Suc n - (real n + 1) * (- 1) ^ n) / (real n + 2)
      = ((- 1) ^ n :: real)"
    by (simp add: field_simps)
  then show ?case using 3 by simp
qed

text \<open>
  C8, as the cell behaves. With one timepoint and a degree of at least 1 the cell raises
  nothing: \<open>np.linspace(-1, 1, 1)\<close> is the single grid point -1, and the result is one
  row whose entry in the column of Legendre degree n is the finite value
  \<open>P n (-1) = (-1) ^ n\<close>.
\<close>

theorem polys_single_timepoint:
  assumes "0 < degree"
  shows "\<exists>M. polys 1 degree = Inr M \<and> nrows M = 1
           \<and> rows M = [map (\<lambda>n. (- 1) ^ n) [0..<ncols M]]"
  using assms by (simp add: polys_value linspace_def eval_legendre_minus_one)

theorem polys_single_timepoint_witness:
  "(0::nat) < 4
   \<and> (\<exists>M. polys 1 4 = Inr M \<and> nrows M = 1 \<and> rows M = [map (\<lambda>n. (- 1) ^ n) [0..<ncols M]])"
  using polys_single_timepoint[of 4] by simp

text \<open>
  C8 as stated fails: one timepoint and the cell's \<open>degree = 4\<close> give a numeric row, not
  an error.
\<close>

theorem single_timepoint_is_no_error:
  "polys 1 4 = Inr \<lparr>nrows = 1, ncols = 4, rows = [[1, - 1, 1, - 1]]\<rparr>"
  by (simp add: polys_def linspace_def column_stack_def upt_rec eval_nat_numeral)

section \<open>Boxcar regressors: proofs\<close>

lemma fold_assign_ones:
  "list_all (\<lambda>i. i < length r) idx \<Longrightarrow>
   fold (\<lambda>i r. r[i := 1]) idx r = map (\<lambda>t. if t \<in> set idx then 1 else r ! t) [0..<length r]"
proof (induction idx arbitrary: r)
  case Nil
  then show ?case by (simp add: map_nth)
next
  case (Cons i idx)
  then have "fold (\<lambda>i r. r[i := 1]) idx (r[i := 1])
      = map (\<lambda>t. if t \<in> set idx then 1 else r[i := 1] ! t) [0..<length r]"
    by simp
  then show ?case by (auto simp: nth_list_update)
qed

lemma set_np_where: "set (np_where m) = {i. i < length m \<and> m ! i}"
  by (auto simp: np_where_def)

lemma regressor_value:
  assumes "bool_index stimuli (map (\<lambda>r. r = 0) runs) = Inr sel" and "length sel \<le> run_trs"
  shows "regressor stimuli runs run_trs category
       = Inr (map (\<lambda>t. if t < length sel \<and> sel ! t = category then 1 else 0) [0..<run_trs])"
proof -
  let ?idx = "np_where (map (\<lambda>s. s = category) sel)"
  have bounds: "list_all (\<lambda>i. i < length (replicate run_trs (0::real))) ?idx"
    using assms(2) by (auto simp: list_all_iff set_np_where)
  have "map (\<lambda>t. if t \<in> set ?idx then 1 else replicate run_trs (0::real) ! t) [0..<run_trs]
      = map (\<lambda>t. if t < length sel \<and> sel ! t = category then 1 else 0) [0..<run_trs]"
    by (rule map_cong) (auto simp: set_np_where)
  then show ?thesis
    using bounds fold_assign_ones[OF bounds]
    by (simp add: regressor_def assms(1) assign_ones_def)
qed

lemma regressor_loop_value:
  assumes "bool_index stimuli (map (\<lambda>r. r = 0) runs) = Inr sel" and "length sel \<le> run_trs"
  shows "regressor_loop stimuli runs run_trs cats
       = Inr (map (\<lambda>c. map (\<lambda>t. if t < length sel \<and> sel ! t = c then 1 else 0) [0..<run_trs]) cats)"
  by (induction cats) (simp_all add: regressor_value[OF assms])

lemma regressors_value:
  assumes "bool_index stimuli (map (\<lambda>r. r = 0) runs) = Inr sel" and "length sel \<le> run_trs"
    and "cats \<noteq> []"
  shows "regressors run_id stimuli runs cats run_trs
       = Inr \<lparr>nrows = run_trs, ncols = length cats,
              rows = map (\<lambda>t. map (\<lambda>c. if t < length sel \<and> sel ! t = c then 1 else 0) cats)
                         [0..<run_trs]\<rparr>"
proof -
  let ?cols = "map (\<lambda>c. map (\<lambda>t. if t < length sel \<and> sel ! t = c then 1 else (0::real)) [0..<run_trs]) cats"
  have ne: "?cols \<noteq> []" using assms(3) by simp
  have all: "list_all (\<lambda>c. length c = run_trs) ?cols" by (simp add: list_all_iff)
  show ?thesis
    unfolding regressors_def regressor_loop_value[OF assms(1,2)] sum.case
      column_stack_shape[OF ne all]
    by (simp add: comp_def)
qed

text \<open>
  C3. Let \<open>labels\<close> be the label sequence restricted to the first run
  (\<open>stimuli[runs == 0]\<close>), of the run length \<open>run_trs\<close>, and let the category list be
  nonempty. Then the cell produces a \<open>run_trs\<close> x (number of categories) matrix whose
  entry at timepoint t and category c is 1 exactly when the label at t is the category
  string c and 0 otherwise. There is one column per listed category and no other (none
  for rest: a timepoint whose label is not a listed category has an all-zero row), and a
  category that does not occur among the labels gives an all-zero column, not an error.
\<close>

theorem boxcar_entries:
  assumes "bool_index stimuli (map (\<lambda>r. r = 0) runs) = Inr labels"
    and "length labels = run_trs"
    and "cats \<noteq> []"
  shows "\<exists>M. regressors run_id stimuli runs cats run_trs = Inr M
           \<and> nrows M = run_trs \<and> ncols M = length cats \<and> wf_array M
           \<and> (\<forall>t < run_trs. \<forall>c < length cats.
                 rows M ! t ! c = (if labels ! t = cats ! c then 1 else 0))
           \<and> (\<forall>c < length cats. cats ! c \<notin> set labels \<longrightarrow>
                 (\<forall>t < run_trs. rows M ! t ! c = 0))
           \<and> (\<forall>t < run_trs. labels ! t \<notin> set cats \<longrightarrow>
                 rows M ! t = replicate (length cats) 0)"
proof -
  let ?M = "\<lparr>nrows = run_trs, ncols = length cats,
             rows = map (\<lambda>t. map (\<lambda>c. if t < length labels \<and> labels ! t = c then 1 else (0::real)) cats)
                        [0..<run_trs]\<rparr>"
  have val: "regressors run_id stimuli runs cats run_trs = Inr ?M"
    using assms by (intro regressors_value) simp_all
  have wf: "wf_array ?M" by (simp add: wf_array_def list_all_iff)
  have entry: "rows ?M ! t ! c = (if labels ! t = cats ! c then 1 else 0)"
    if "t < run_trs" "c < length cats" for t c
    using that assms(2) by simp
  have absent: "rows ?M ! t ! c = 0"
    if "c < length cats" "cats ! c \<notin> set labels" "t < run_trs" for t c
  proof -
    have "labels ! t \<in> set labels" using that(3) assms(2) by simp
    then have "labels ! t \<noteq> cats ! c" using that(2) by metis
    then show ?thesis using entry[OF that(3,1)] by simp
  qed
  have unlisted: "rows ?M ! t = replicate (length cats) 0"
    if "t < run_trs" "labels ! t \<notin> set cats" for t
    using that by (auto simp: map_replicate_const[symmetric] intro!: map_cong)
  show ?thesis
    using val wf entry absent unlisted by (intro exI[of _ ?M]) simp
qed

theorem boxcar_entries_witness:
  "\<exists>M. regressors 0 [''rest'', ''face'', ''cat'', ''face''] [0, 0, 1, 0] [''face'', ''house''] 3 = Inr M
     \<and> nrows M = 3 \<and> ncols M = 2 \<and> rows M ! 1 ! 0 = 1 \<and> rows M ! 1 ! 1 = 0 \<and> rows M ! 0 ! 0 = 0"
proof -
  have sel: "bool_index [''rest'', ''face'', ''cat'', ''face''] (map (\<lambda>r. r = 0) [0, 0, 1, 0 :: int])
      = Inr [''rest'', ''face'', ''face'']"
    by (simp add: bool_index_def)
  from boxcar_entries[OF sel, of 3 "[''face'', ''house'']" 0]
  obtain M where M: "regressors 0 [''rest'', ''face'', ''cat'', ''face''] [0, 0, 1, 0] [''face'', ''house''] 3 = Inr M"
    "nrows M = 3" "ncols M = 2"
    "\<forall>t < 3. \<forall>c < 2. rows M ! t ! c = (if [''rest'', ''face'', ''face''] ! t = [''face'', ''house''] ! c then 1 else 0)"
    by auto
  have "rows M ! 1 ! 0 = 1" "rows M ! 1 ! 1 = 0" "rows M ! 0 ! 0 = 0"
    using M(4) by simp_all
  then show ?thesis using M(1,2,3) by simp
qed

lemma sum_list_indicator:
  "distinct cats \<Longrightarrow>
   (\<Sum>c\<leftarrow>cats. if l = c then 1 else (0::real)) = (if l \<in> set cats then 1 else 0)"
  by (induction cats) auto

lemma distinct_categories: "distinct categories"
  by (simp add: categories_def)

lemma rest_not_category: "''rest'' \<notin> set categories"
  by (simp add: categories_def)

text \<open>
  C6. For a label sequence of the first run, of the run length and with every label a
  category name or rest, the boxcar columns of the eight categories sum to at most 1 at
  every timepoint, and the sum is 0 exactly at the timepoints labelled rest.
\<close>

theorem boxcar_row_sums:
  assumes "bool_index stimuli (map (\<lambda>r. r = 0) runs) = Inr labels"
    and "length labels = run_trs"
    and "set labels \<subseteq> set categories \<union> {''rest''}"
  shows "\<exists>M. regressors run_id stimuli runs categories run_trs = Inr M
           \<and> (\<forall>t < run_trs. sum_list (rows M ! t) \<le> 1
                 \<and> (sum_list (rows M ! t) = 0 \<longleftrightarrow> labels ! t = ''rest''))"
proof -
  let ?M = "\<lparr>nrows = run_trs, ncols = length categories,
             rows = map (\<lambda>t. map (\<lambda>c. if t < length labels \<and> labels ! t = c then 1 else (0::real))
                               categories) [0..<run_trs]\<rparr>"
  have ne: "categories \<noteq> []" by (simp add: categories_def)
  have val: "regressors run_id stimuli runs categories run_trs = Inr ?M"
    using assms(1,2) ne by (intro regressors_value) simp_all
  have row: "sum_list (rows ?M ! t) = (if labels ! t \<in> set categories then 1 else 0)"
    if "t < run_trs" for t
    using that assms(2) sum_list_indicator[OF distinct_categories, of "labels ! t"] by simp
  have "sum_list (rows ?M ! t) \<le> 1 \<and> (sum_list (rows ?M ! t) = 0 \<longleftrightarrow> labels ! t = ''rest'')"
    if t: "t < run_trs" for t
  proof -
    have "labels ! t \<in> set labels" using t assms(2) by simp
    then have "labels ! t \<in> set categories \<or> labels ! t = ''rest''" using assms(3) by auto
    then show ?thesis using row[OF t] rest_not_category by auto
  qed
  then show ?thesis using val by (intro exI[of _ ?M]) simp
qed

theorem boxcar_row_sums_witness:
  "\<exists>M. regressors 0 [''rest'', ''face'', ''cat'', ''house''] [0, 0, 1, 0] categories 3 = Inr M
     \<and> sum_list (rows M ! 0) = 0 \<and> sum_list (rows M ! 1) = 1 \<and> sum_list (rows M ! 2) = 1"
proof -
  have sel: "bool_index [''rest'', ''face'', ''cat'', ''house''] (map (\<lambda>r. r = 0) [0, 0, 1, 0 :: int])
      = Inr [''rest'', ''face'', ''house'']"
    by (simp add: bool_index_def)
  have voc: "set [''rest'', ''face'', ''house''] \<subseteq> set categories \<union> {''rest''}"
    by (simp add: categories_def)
  from boxcar_row_sums[OF sel _ voc, of 3 0]
  obtain M where M: "regressors 0 [''rest'', ''face'', ''cat'', ''house''] [0, 0, 1, 0] categories 3 = Inr M"
    "\<forall>t < 3. sum_list (rows M ! t) \<le> 1
       \<and> (sum_list (rows M ! t) = 0 \<longleftrightarrow> [''rest'', ''face'', ''house''] ! t = ''rest'')"
    by auto
  have "sum_list (rows M ! 0) = 0" using M(2) by simp
  moreover have "sum_list (rows M ! 1) = 1" "sum_list (rows M ! 2) = 1"
    using M(1) by (auto simp add: regressors_def regressor_def bool_index_def np_where_def
        assign_ones_def column_stack_def categories_def upt_rec)
  ultimately show ?thesis using M(1) by simp
qed

lemma first_run_labels_agree:
  assumes "length stimuli1 = length runs1" and "length runs1 = length runs2"
    and "length runs2 = length stimuli2"
    and "\<forall>i < length runs1. (runs1 ! i = 0) = (runs2 ! i = (0::int))"
    and "\<forall>i < length runs1. runs1 ! i = 0 \<longrightarrow> stimuli1 ! i = stimuli2 ! i"
  shows "map fst (filter snd (zip stimuli1 (map (\<lambda>r. r = 0) runs1)))
       = map fst (filter snd (zip stimuli2 (map (\<lambda>r. r = 0) runs2)))"
  using assms
proof (induction stimuli1 runs1 runs2 stimuli2 rule: list_induct4)
  case Nil
  then show ?case by simp
next
  case (Cons s1 ss1 r1 rs1 r2 rs2 s2 ss2)
  have hd: "(r1 = 0) = (r2 = 0)" "r1 = 0 \<longrightarrow> s1 = s2"
    using Cons.prems(1)[rule_format, of 0] Cons.prems(2)[rule_format, of 0] by simp_all
  have tl1: "\<forall>i < length rs1. (rs1 ! i = 0) = (rs2 ! i = 0)"
    using Cons.prems(1) by (auto dest: spec[of _ "Suc i" for i])
  have tl2: "\<forall>i < length rs1. rs1 ! i = 0 \<longrightarrow> ss1 ! i = ss2 ! i"
    using Cons.prems(2) by (auto dest: spec[of _ "Suc i" for i])
  show ?case using Cons.IH[OF tl1 tl2] hd by auto
qed

lemma regressors_cong:
  assumes "bool_index stimuli1 (map (\<lambda>r. r = 0) runs1) = bool_index stimuli2 (map (\<lambda>r. r = 0) runs2)"
  shows "regressors run_id1 stimuli1 runs1 cats run_trs = regressors run_id2 stimuli2 runs2 cats run_trs"
proof -
  have one: "regressor stimuli1 runs1 run_trs c = regressor stimuli2 runs2 run_trs c" for c
    by (simp add: regressor_def assms)
  have "regressor_loop stimuli1 runs1 run_trs cats = regressor_loop stimuli2 runs2 run_trs cats"
    by (induction cats) (simp_all add: one cong: sum.case_cong)
  then show ?thesis by (simp add: regressors_def)
qed

text \<open>
  C9. The boxcar matrix of the first run depends only on the labels at the timepoints
  whose run index is 0: two inputs (stimuli, runs) with the same positions of run index 0
  and the same labels at these positions give the same matrix, whatever the value of
  \<open>run_id\<close>.
\<close>

theorem regressors_first_run_only:
  assumes "length stimuli1 = length runs1" and "length stimuli2 = length runs2"
    and "length runs1 = length runs2"
    and "\<forall>i < length runs1. (runs1 ! i = 0) = (runs2 ! i = 0)"
    and "\<forall>i < length runs1. runs1 ! i = 0 \<longrightarrow> stimuli1 ! i = stimuli2 ! i"
  shows "regressors run_id1 stimuli1 runs1 cats run_trs
       = regressors run_id2 stimuli2 runs2 cats run_trs"
proof -
  have "map fst (filter snd (zip stimuli1 (map (\<lambda>r. r = 0) runs1)))
      = map fst (filter snd (zip stimuli2 (map (\<lambda>r. r = 0) runs2)))"
    using assms by (intro first_run_labels_agree) simp_all
  then have "bool_index stimuli1 (map (\<lambda>r. r = 0) runs1)
      = bool_index stimuli2 (map (\<lambda>r. r = 0) runs2)"
    using assms(1,2) by (simp add: bool_index_def)
  then show ?thesis by (rule regressors_cong)
qed

theorem regressors_first_run_only_witness:
  "regressors 0 [''face'', ''rest'', ''cat'', ''shoe''] [0, 0, 1, 1] categories 2
   = regressors 7 [''face'', ''rest'', ''house'', ''rest''] [0, 0, 2, 3] categories 2
   \<and> regressors 0 [''face'', ''rest'', ''cat'', ''shoe''] [0, 0, 1, 1] categories 2
   = Inr \<lparr>nrows = 2, ncols = 8, rows = [[1, 0, 0, 0, 0, 0, 0, 0], [0, 0, 0, 0, 0, 0, 0, 0]]\<rparr>"
proof -
  have a: "\<forall>i < length [0, 0, 1, 1 :: int]. ([0, 0, 1, 1 :: int] ! i = 0) = ([0, 0, 2, 3 :: int] ! i = 0)"
    by (simp add: All_less_Suc nth_Cons' eval_nat_numeral)
  have b: "\<forall>i < length [0, 0, 1, 1 :: int]. [0, 0, 1, 1 :: int] ! i = 0
      \<longrightarrow> [''face'', ''rest'', ''cat'', ''shoe''] ! i = [''face'', ''rest'', ''house'', ''rest''] ! i"
    by (simp add: All_less_Suc nth_Cons' eval_nat_numeral)
  have "regressors 0 [''face'', ''rest'', ''cat'', ''shoe''] [0, 0, 1, 1] categories 2
      = regressors 7 [''face'', ''rest'', ''house'', ''rest''] [0, 0, 2, 3] categories 2"
    using regressors_first_run_only[OF _ _ _ a b, of 0 categories 2 7] by simp
  moreover have "regressors 0 [''face'', ''rest'', ''cat'', ''shoe''] [0, 0, 1, 1] categories 2
      = Inr \<lparr>nrows = 2, ncols = 8, rows = [[1, 0, 0, 0, 0, 0, 0, 0], [0, 0, 0, 0, 0, 0, 0, 0]]\<rparr>"
    by (simp add: regressors_def regressor_def bool_index_def np_where_def
        assign_ones_def column_stack_def categories_def upt_rec)
  ultimately show ?thesis by simp
qed

section \<open>Convolution with the HRF: proofs\<close>

lemma sum_list_if_add:
  fixes f g :: "nat \<Rightarrow> real"
  shows "(\<Sum>k\<leftarrow>xs. if P k then f k + g k else 0)
       = (\<Sum>k\<leftarrow>xs. if P k then f k else 0) + (\<Sum>k\<leftarrow>xs. if P k then g k else 0)"
  by (induction xs) auto

lemma length_convolve: "h \<noteq> [] \<Longrightarrow> length (convolve b h) = length b"
  by (cases h) (simp_all add: convolve_def full_convolution_def)

lemma convolve_nth:
  assumes "n < length b" and "h \<noteq> []"
  shows "convolve b h ! n
       = (\<Sum>k\<leftarrow>[0..<length h]. if k \<le> n \<and> n - k < length b then h ! k * b ! (n - k) else 0)"
proof -
  have "n < length b + length h - 1" using assms by (cases h) simp_all
  then show ?thesis using assms
    by (simp add: convolve_def full_convolution_def cong: if_cong)
qed

lemma convolve_empty_kernel: "convolve b [] = replicate (length b - 1) 0"
  by (simp add: convolve_def full_convolution_def map_replicate_const)

lemma convolve_superposition_nonempty:
  assumes "length b1 = length b2" and "hrf \<noteq> []"
  shows "convolve (map (\<lambda>(x, y). x + y) (zip b1 b2)) hrf
       = map (\<lambda>(x, y). x + y) (zip (convolve b1 hrf) (convolve b2 hrf))"
proof (rule nth_equalityI)
  show "length (convolve (map (\<lambda>(x, y). x + y) (zip b1 b2)) hrf)
      = length (map (\<lambda>(x, y). x + y) (zip (convolve b1 hrf) (convolve b2 hrf)))"
    using assms by (simp add: length_convolve)
next
  fix n assume "n < length (convolve (map (\<lambda>(x, y). x + y) (zip b1 b2)) hrf)"
  then have n: "n < length b2"
    using assms by (simp add: length_convolve)
  have summand: "(if k \<le> n \<and> n - k < length b2
                then hrf ! k * map (\<lambda>(x, y). x + y) (zip b1 b2) ! (n - k) else 0)
            = (if k \<le> n \<and> n - k < length b2
                then hrf ! k * b1 ! (n - k) + hrf ! k * b2 ! (n - k) else 0)" for k
    using assms by (simp add: distrib_left)
  show "convolve (map (\<lambda>(x, y). x + y) (zip b1 b2)) hrf ! n
      = map (\<lambda>(x, y). x + y) (zip (convolve b1 hrf) (convolve b2 hrf)) ! n"
    using assms n
    by (simp add: convolve_nth length_convolve summand sum_list_if_add)
qed

text \<open>
  C4. For boxcar columns b1 and b2 of equal length and any kernel, convolving the sum
  equals the sum of the convolutions:
  \<open>convolve (b1 + b2) hrf = convolve b1 hrf + convolve b2 hrf\<close>, the sums taken entry by
  entry.
\<close>

theorem convolve_superposition:
  assumes "length b1 = length b2"
  shows "convolve (map (\<lambda>(x, y). x + y) (zip b1 b2)) hrf
       = map (\<lambda>(x, y). x + y) (zip (convolve b1 hrf) (convolve b2 hrf))"
proof (cases "hrf = []")
  case True
  have "map (\<lambda>(x, y). x + y) (zip (replicate m (0::real)) (replicate m 0)) = replicate m 0" for m
    by (induction m) simp_all
  then show ?thesis using assms True by (simp add: convolve_empty_kernel)
next
  case False
  then show ?thesis using assms by (rule convolve_superposition_nonempty[rotated])
qed

theorem convolve_superposition_witness:
  "length [0, 1, 1, 0 :: real] = length [1, 0, 1, 0 :: real]
   \<and> convolve [1, 1, 2, 0] [1, 2, 3] = [1, 3, 7, 7]
   \<and> convolve [0, 1, 1, 0] [1, 2, 3] = [0, 1, 3, 5]
   \<and> convolve [1, 0, 1, 0] [1, 2, 3] = [1, 2, 4, 2]"
  using convolve_superposition[of "[0, 1, 1, 0]" "[1, 0, 1, 0]" "[1, 2, 3]"]
  by (simp add: convolve_def full_convolution_def upt_rec)

section \<open>Design matrix: proofs\<close>





section \<open>Contrasts: proofs\<close>

lemma sum_list_nth_upt: "(\<Sum>i\<leftarrow>[0..<length c]. c ! i) = sum_list (c :: real list)"
  by (simp add: map_nth)

lemma sum_list_shift:
  fixes f g :: "nat \<Rightarrow> real"
  shows "(\<Sum>i\<leftarrow>xs. f i * (g i + K)) = (\<Sum>i\<leftarrow>xs. f i * g i) + K * (\<Sum>i\<leftarrow>xs. f i)"
  by (induction xs) (simp_all add: algebra_simps)

text \<open>
  C7. For a contrast vector c whose entries sum to zero, betas of the columns of
  interest and a constant K, shifting every beta by K leaves the contrast map unchanged:
  \<open>c\<^sup>T (\<beta> + K 1) = c\<^sup>T \<beta>\<close>.
\<close>

theorem contrast_map_shift_invariant:
  assumes "sum_list c = 0" and "length c = nrows beta" and "wf_array beta"
  shows "contrast_map c (shift_betas K beta) = contrast_map c beta"
proof -
  have entry: "rows (shift_betas K beta) ! i ! v = rows beta ! i ! v + K"
    if "i < nrows beta" "v < ncols beta" for i v
    using that assms(3) by (simp add: shift_betas_def wf_array_def list_all_length)
  have "(\<Sum>i\<leftarrow>[0..<nrows beta]. c ! i * rows (shift_betas K beta) ! i ! v)
      = (\<Sum>i\<leftarrow>[0..<nrows beta]. c ! i * rows beta ! i ! v)" if v: "v < ncols beta" for v
  proof -
    have "(\<Sum>i\<leftarrow>[0..<nrows beta]. c ! i * rows (shift_betas K beta) ! i ! v)
        = (\<Sum>i\<leftarrow>[0..<nrows beta]. c ! i * (rows beta ! i ! v + K))"
      by (rule arg_cong[where f = sum_list], rule map_cong) (simp_all add: entry v)
    also have "\<dots> = (\<Sum>i\<leftarrow>[0..<nrows beta]. c ! i * rows beta ! i ! v)
                   + K * (\<Sum>i\<leftarrow>[0..<nrows beta]. c ! i)"
      by (rule sum_list_shift)
    also have "(\<Sum>i\<leftarrow>[0..<nrows beta]. c ! i) = 0"
      using assms(1,2) sum_list_nth_upt[of c] by simp
    finally show ?thesis by simp
  qed
  then show ?thesis
    by (simp add: contrast_map_def shift_betas_def)
qed

theorem contrast_map_shift_invariant_witness:
  "sum_list [1, - 1 :: real] = 0
   \<and> contrast_map [1, - 1] (shift_betas 5 \<lparr>nrows = 2, ncols = 3, rows = [[1, 2, 3], [4, 6, 8]]\<rparr>) = [- 3, - 4, - 5]
   \<and> contrast_map [1, - 1] \<lparr>nrows = 2, ncols = 3, rows = [[1, 2, 3], [4, 6, 8]]\<rparr> = [- 3, - 4, - 5]"
  using contrast_map_shift_invariant[of "[1, - 1]" "\<lparr>nrows = 2, ncols = 3, rows = [[1, 2, 3], [4, 6, 8]]\<rparr>" 5]
  by (simp add: contrast_map_def shift_betas_def wf_array_def upt_rec)

end
